theory Spec2Isabelle
  imports Complex_Main "HOL-Library.Word"
begin

section \<open>The multicast sender of emma-lte-sim.cc\<close>

text \<open>
  The sender application of \<^verbatim>\<open>src/EMMA/ns3-sim/emma-lte-sim.cc\<close> reads a file into a
  byte buffer, and sends it in chunks: \<^verbatim>\<open>MulticastSender::Send(buffer, offset)\<close> sends
  one chunk and schedules itself again, 10 ms later, at the next offset.

  Virtual time is a natural number of milliseconds (\<^verbatim>\<open>Seconds(1.0)\<close> is 1000,
  \<^verbatim>\<open>MilliSeconds(10)\<close> is 10). Offsets and lengths are \<^verbatim>\<open>size_t\<close> in the source and
  natural numbers here: the only subtraction, \<^verbatim>\<open>buffer.size() - offset\<close>, is guarded by
  \<^verbatim>\<open>offset < buffer.size()\<close>, and the only addition, \<^verbatim>\<open>offset + len\<close>, is at most
  \<^verbatim>\<open>buffer.size()\<close> (lemma \<open>Send_no_wrap\<close> below), so that no operation wraps around.
\<close>

subsection \<open>Data\<close>

type_synonym byte = "8 word"

text \<open>
  The constants of the sender: \<^verbatim>\<open>size_t chunk = 1024\<close> in \<^verbatim>\<open>Send\<close>, the delay
  \<^verbatim>\<open>Seconds(1.0)\<close> of the first event in \<^verbatim>\<open>StartApplication\<close>, and the delay
  \<^verbatim>\<open>MilliSeconds(10)\<close> between an event and its successor in \<^verbatim>\<open>Send\<close>. The
  functions below take them as a record, and \<open>emma_config\<close> holds the values of the source.
\<close>

record config =
  chunk :: nat
  startDelay :: nat
  interval :: nat

definition emma_config :: config where
  "emma_config = \<lparr>chunk = 1024, startDelay = 1000, interval = 10\<rparr>"

text \<open>
  The two places where the program can fail: a read of a chunk outside the buffer, and
  the read of the payload file. The second is the exception that the stream buffer throws
  when a file has been opened but cannot be read (a directory, say); nothing catches it,
  so that it ends the program abnormally (\<^verbatim>\<open>std::terminate\<close> aborts the process).
\<close>

datatype error = OutOfBounds | ReadFailure

text \<open>
  One call of \<^verbatim>\<open>m_socket->Send(p)\<close>: the virtual time, the offset of the chunk in the
  buffer, the bytes of the packet, and the value the socket returned (the number of
  bytes sent, or -1 when the send failed).
\<close>

datatype transmit =
  Transmit (tx_time: nat) (tx_offset: nat) (tx_bytes: "byte list") (tx_result: int)

text \<open>
  One executed event, a call \<^verbatim>\<open>Send(buffer, offset)\<close> at a virtual time: what it sent,
  if anything, and the events (time, offset) it handed to \<^verbatim>\<open>Simulator::Schedule\<close>.
\<close>

datatype step =
  Step (st_time: nat) (st_offset: nat) (sent: "transmit option")
    (scheduled: "(nat \<times> nat) list")

text \<open>The socket is external: a function from the time and the packet to the returned value.\<close>

type_synonym socket = "nat \<Rightarrow> byte list \<Rightarrow> int"

definition ideal_socket :: socket where
  "ideal_socket now p = int (length p)"

definition failing_socket :: socket where
  "failing_socket now p = - 1"

text \<open>
  The file system is a map from file names to files. \<open>None\<close> is a name under which no
  file can be opened. A file that can be opened either yields its contents or fails when
  it is read. A receiver's view of the network is external too: for a receiver and a
  transmission, the time of arrival, or \<open>None\<close> when the packet does not arrive.
\<close>

datatype stored_file = Contents "byte list" | ReadFails

type_synonym files = "string \<rightharpoonup> stored_file"

type_synonym network = "nat \<Rightarrow> transmit \<Rightarrow> nat option"

definition no_files :: files where
  "no_files = Map.empty"

subsection \<open>The sender\<close>

text \<open>
  \<^verbatim>\<open>Create<Packet>((uint8_t*)&buffer[offset], len)\<close> copies \<open>len\<close> bytes starting at
  \<open>buffer[offset]\<close>. The model is total: a read that leaves the buffer is an error.
\<close>

definition Create_Packet :: "byte list \<Rightarrow> nat \<Rightarrow> nat \<Rightarrow> error + byte list" where
  "Create_Packet buffer offset len =
     (if offset < length buffer \<and> offset + len \<le> length buffer
      then Inr (take len (drop offset buffer))
      else Inl OutOfBounds)"

text \<open>
  \<^verbatim>\<open>MulticastSender::Send\<close> (lines 31 to 39). The value of \<^verbatim>\<open>m_socket->Send(p)\<close> is not
  looked at, and the successor is scheduled after every send.
\<close>

definition Send :: "config \<Rightarrow> socket \<Rightarrow> byte list \<Rightarrow> nat \<Rightarrow> nat \<Rightarrow> error + step" where
  "Send cfg sock buffer now offset =
     (if offset < length buffer then
        (let len = min (chunk cfg) (length buffer - offset) in
         case Create_Packet buffer offset len of
           Inl e \<Rightarrow> Inl e
         | Inr p \<Rightarrow>
             Inr (Step now offset (Some (Transmit now offset p (sock now p)))
                    [(now + interval cfg, offset + len)]))
      else Inr (Step now offset None []))"

text \<open>
  The file read of \<^verbatim>\<open>StartApplication\<close> (lines 27 and 28). A \<^verbatim>\<open>std::ifstream\<close> that
  could not be opened yields no character, so the buffer of a file that cannot be opened
  is empty; the stream's state is never tested. A file that was opened and cannot be read
  makes the \<^verbatim>\<open>std::istreambuf_iterator\<close> throw.
\<close>

definition read_file :: "files \<Rightarrow> string \<Rightarrow> error + byte list" where
  "read_file fs filename =
     (case fs filename of
        None \<Rightarrow> Inr []
      | Some (Contents bytes) \<Rightarrow> Inr bytes
      | Some ReadFails \<Rightarrow> Inl ReadFailure)"

text \<open>
  \<^verbatim>\<open>MulticastSender::StartApplication\<close> (lines 23 to 30), called at time \<open>now\<close>: the
  buffer, and the one event it schedules, \<^verbatim>\<open>Send(buffer, 0)\<close> after the start delay.
  When the read throws, nothing is scheduled.
\<close>

definition StartApplication ::
  "config \<Rightarrow> files \<Rightarrow> string \<Rightarrow> nat \<Rightarrow> error + byte list \<times> (nat \<times> nat) list" where
  "StartApplication cfg fs filename now =
     (case read_file fs filename of
        Inl e \<Rightarrow> Inl e
      | Inr buffer \<Rightarrow> Inr (buffer, [(now + startDelay cfg, 0)]))"

subsection \<open>The event loop\<close>

text \<open>
  The simulator's queue holds the sender's pending events in order of time; an event
  scheduled for a time that is already taken runs after the events scheduled before it.
\<close>

fun Schedule :: "nat \<times> nat \<Rightarrow> (nat \<times> nat) list \<Rightarrow> (nat \<times> nat) list" where
  "Schedule e [] = [e]"
| "Schedule e (x # xs) = (if fst e < fst x then e # x # xs else x # Schedule e xs)"

text \<open>
  \<^verbatim>\<open>Simulator::Stop(t)\<close> ends the run at time \<open>t\<close>: an event of the sender at that time or
  later is not executed. \<open>None\<close> is a run with no stop time.
\<close>

definition stopped :: "nat option \<Rightarrow> nat \<Rightarrow> bool" where
  "stopped stop t = (case stop of None \<Rightarrow> False | Some s \<Rightarrow> s \<le> t)"

text \<open>
  \<^verbatim>\<open>Simulator::Run\<close>, restricted to the sender's events: it executes the first event of
  the queue, inserts the events that this one scheduled, and goes on until the queue is
  empty or the stop time is reached. It returns the executed events in order. Nothing
  in the loop bounds the number of events, so that the function is partial: \<open>None\<close> is
  a run that never ends.
\<close>

partial_function (option) Simulator_Run ::
  "config \<Rightarrow> socket \<Rightarrow> byte list \<Rightarrow> nat option \<Rightarrow> (nat \<times> nat) list \<Rightarrow> step list
     \<Rightarrow> (error + step list) option" where
  "Simulator_Run cfg sock buffer stop queue trace =
     (case queue of
        [] \<Rightarrow> Some (Inr trace)
      | ev # rest \<Rightarrow>
          if stopped stop (fst ev) then Some (Inr trace)
          else (case Send cfg sock buffer (fst ev) (snd ev) of
                  Inl e \<Rightarrow> Some (Inl e)
                | Inr r \<Rightarrow>
                    Simulator_Run cfg sock buffer stop
                      (fold Schedule (scheduled r) rest) (trace @ [r])))"

declare Simulator_Run.simps [code]

text \<open>The transmit events of a run: the executed events that sent a chunk.\<close>

definition transmissions :: "step list \<Rightarrow> transmit list" where
  "transmissions trace = List.map_filter sent trace"

text \<open>
  The receive callback of a node (lines 90 to 96) logs one line, the node and the time,
  for every packet that arrives.
\<close>

definition receptions :: "network \<Rightarrow> nat \<Rightarrow> step list \<Rightarrow> (nat \<times> nat) list" where
  "receptions net rid trace =
     map (\<lambda>t. (rid, t)) (List.map_filter (net rid) (transmissions trace))"

text \<open>
  \<^verbatim>\<open>main\<close> (lines 47 to 103), as far as the sender goes: the file name is the command
  line argument \<^verbatim>\<open>capFile\<close>, \<^verbatim>\<open>alert123.xml\<close> when absent; the application starts at
  time 0; the run stops at 5 s; the exit code is 0. An error is an abnormal end of the
  program, with no exit code of \<^verbatim>\<open>main\<close>.
\<close>

definition main :: "socket \<Rightarrow> files \<Rightarrow> string option \<Rightarrow> (error + int \<times> step list) option" where
  "main sock fs arg =
     (let capFile = (case arg of None \<Rightarrow> ''alert123.xml'' | Some f \<Rightarrow> f) in
      case StartApplication emma_config fs capFile 0 of
        Inl e \<Rightarrow> Some (Inl e)
      | Inr (buffer, queue) \<Rightarrow>
          (case Simulator_Run emma_config sock buffer (Some 5000) queue [] of
             None \<Rightarrow> None
           | Some (Inl e) \<Rightarrow> Some (Inl e)
           | Some (Inr trace) \<Rightarrow> Some (Inr (0, trace))))"

subsection \<open>Auxiliary notions of the proofs\<close>

text \<open>The number of chunks of \<open>L\<close> bytes, and the event that sends the chunk at an offset.\<close>

definition chunk_count :: "nat \<Rightarrow> nat \<Rightarrow> nat" where
  "chunk_count L C = (L + C - 1) div C"

definition step_at :: "config \<Rightarrow> socket \<Rightarrow> byte list \<Rightarrow> nat \<Rightarrow> nat \<Rightarrow> step" where
  "step_at cfg sock buffer now offset =
     (let len = min (chunk cfg) (length buffer - offset);
          p = take len (drop offset buffer)
      in Step now offset (Some (Transmit now offset p (sock now p)))
           [(now + interval cfg, offset + len)])"

section \<open>Lemmas\<close>

subsection \<open>Counting chunks\<close>

lemma lt_chunk_count_iff:
  fixes C :: nat
  assumes "0 < C"
  shows "k < chunk_count L C \<longleftrightarrow> k * C < L"
proof -
  have "k < (L + C - 1) div C \<longleftrightarrow> Suc k \<le> (L + C - 1) div C" by auto
  also have "\<dots> \<longleftrightarrow> Suc k * C \<le> L + C - 1"
    using assms by (simp only: less_eq_div_iff_mult_less_eq)
  also have "\<dots> \<longleftrightarrow> k * C < L" using assms by auto
  finally show ?thesis by (simp add: chunk_count_def)
qed

lemma chunk_count_0_iff:
  "0 < C \<Longrightarrow> chunk_count L C = 0 \<longleftrightarrow> L = 0"
  using lt_chunk_count_iff [of C 0 L] by auto

lemma chunk_count_covers:
  "0 < C \<Longrightarrow> L \<le> chunk_count L C * C"
  using lt_chunk_count_iff [of C "chunk_count L C" L] by auto

lemma chunk_count_minus:
  assumes "0 < C"
  shows "chunk_count (L - C) C = chunk_count L C - 1"
proof (cases "L \<le> C")
  case True
  then have "chunk_count L C \<le> 1"
    using lt_chunk_count_iff [OF assms, of 1 L] by auto
  moreover from True have "chunk_count (L - C) C = 0"
    using assms by (simp add: chunk_count_0_iff)
  ultimately show ?thesis by simp
next
  case False
  then have "L + C - 1 = (L - C + C - 1) + C" using assms by auto
  then have "(L + C - 1) div C = (L - C + C - 1) div C + 1"
    using assms by (metis div_add_self2 less_numeral_extra(3))
  then show ?thesis by (simp add: chunk_count_def)
qed

lemma chunk_count_ceiling:
  assumes "0 < C"
  shows "nat \<lceil>real L / real C\<rceil> = chunk_count L C"
proof -
  let ?n = "chunk_count L C"
  have up: "real L / real C \<le> real ?n"
  proof -
    have "real L \<le> real (?n * C)" using chunk_count_covers [OF assms, of L] by (simp only: of_nat_le_iff)
    then show ?thesis using assms by (simp add: divide_le_eq)
  qed
  have lo: "real ?n - 1 < real L / real C"
  proof (cases "?n = 0")
    case True
    have "0 \<le> real L / real C" by simp
    then have "- 1 < real L / real C" by linarith
    with True show ?thesis by simp
  next
    case False
    then have "?n - 1 < ?n" by simp
    then have "(?n - 1) * C < L" using lt_chunk_count_iff [OF assms] by blast
    then have "real ((?n - 1) * C) < real L" by (simp only: of_nat_less_iff)
    moreover have "real (?n - 1) = real ?n - 1" using False by (simp add: of_nat_diff)
    ultimately have "(real ?n - 1) * real C < real L" by simp
    then show ?thesis using assms by (simp add: less_divide_eq)
  qed
  have "\<lceil>real L / real C\<rceil> = int ?n"
    by (rule ceiling_unique) (use lo up in auto)
  then show ?thesis by simp
qed

lemma Send_lt:
  "offset < length buffer \<Longrightarrow> Send cfg sock buffer now offset = Inr (step_at cfg sock buffer now offset)"
  by (simp add: Send_def Create_Packet_def step_at_def Let_def)

lemma Send_ge:
  "\<not> offset < length buffer \<Longrightarrow> Send cfg sock buffer now offset = Inr (Step now offset None [])"
  by (simp add: Send_def)

lemma Simulator_Run_closed:
  assumes C: "0 < chunk cfg"
    and n: "chunk_count (length buffer - off) (chunk cfg) = n"
    and stop: "\<not> stopped stop (t + n * interval cfg)"
  shows "Simulator_Run cfg sock buffer stop [(t, off)] trace =
         Some (Inr (trace
           @ map (\<lambda>k. step_at cfg sock buffer (t + k * interval cfg) (off + k * chunk cfg)) [0..<n]
           @ [Step (t + n * interval cfg) (max off (length buffer)) None []]))"
  using n stop
proof (induction n arbitrary: t off trace)
  case 0
  then have ge: "\<not> off < length buffer" using C by (simp add: chunk_count_0_iff)
  from 0 have ns: "\<not> stopped stop t" by simp
  show ?case
    using ge ns
    by (simp add: Simulator_Run.simps [of _ _ _ _ "[(t, off)]"] Simulator_Run.simps [of _ _ _ _ "[]"]
        Send_ge max_def)
next
  case (Suc n)
  let ?C = "chunk cfg" and ?I = "interval cfg" and ?L = "length buffer"
  let ?len = "min ?C (?L - off)"
  from Suc.prems(1) have lt: "off < ?L"
    using C chunk_count_0_iff [of ?C "?L - off"] by auto
  have cnt: "chunk_count (?L - (off + ?len)) ?C = n"
  proof (cases "?C \<le> ?L - off")
    case True
    then show ?thesis using chunk_count_minus [OF C, of "?L - off"] Suc.prems(1) by (simp add: min_def)
  next
    case False
    then have "?L - (off + ?len) = 0" by (simp add: min_def)
    moreover from False have "chunk_count (?L - off) ?C \<le> 1"
      using lt_chunk_count_iff [OF C, of 1 "?L - off"] by auto
    ultimately show ?thesis using Suc.prems(1) C by (simp add: chunk_count_0_iff)
  qed
  have stopn: "\<not> stopped stop (t + ?I + n * ?I)" using Suc.prems(2) by (simp add: add.assoc)
  have ns: "\<not> stopped stop t"
    using Suc.prems(2) by (auto simp: stopped_def split: option.splits)
  have sched: "scheduled (step_at cfg sock buffer t off) = [(t + ?I, off + ?len)]"
    by (simp add: step_at_def Let_def)
  have full: "?len = ?C" if "0 < n"
  proof -
    have "1 < chunk_count (?L - off) ?C" using that Suc.prems(1) by simp
    then have "1 * ?C < ?L - off" using lt_chunk_count_iff [OF C] by blast
    then show ?thesis by simp
  qed
  have IH: "Simulator_Run cfg sock buffer stop [(t + ?I, off + ?len)] (trace @ [step_at cfg sock buffer t off]) =
        Some (Inr ((trace @ [step_at cfg sock buffer t off])
           @ map (\<lambda>k. step_at cfg sock buffer (t + ?I + k * ?I) (off + ?len + k * ?C)) [0..<n]
           @ [Step (t + ?I + n * ?I) (max (off + ?len) ?L) None []]))"
    by (rule Suc.IH [OF cnt stopn])
  have maps: "map (\<lambda>k. step_at cfg sock buffer (t + ?I + k * ?I) (off + ?len + k * ?C)) [0..<n]
      = map (\<lambda>k. step_at cfg sock buffer (t + Suc k * ?I) (off + Suc k * ?C)) [0..<n]"
  proof (cases "0 < n")
    case True
    then show ?thesis using full by (simp add: add.assoc add.commute add.left_commute)
  next
    case False
    then show ?thesis by simp
  qed
  have mx: "max (off + ?len) ?L = max off ?L" using lt by (auto simp: min_def max_def)
  have unroll: "map (\<lambda>k. step_at cfg sock buffer (t + k * ?I) (off + k * ?C)) [0..<Suc n]
      = step_at cfg sock buffer t off # map (\<lambda>k. step_at cfg sock buffer (t + Suc k * ?I) (off + Suc k * ?C)) [0..<n]"
    by (simp only: upt_conv_Cons [of 0 "Suc n"] zero_less_Suc if_True list.map map_Suc_upt [symmetric] map_map comp_def) simp
  have tail: "(trace @ [step_at cfg sock buffer t off])
           @ map (\<lambda>k. step_at cfg sock buffer (t + ?I + k * ?I) (off + ?len + k * ?C)) [0..<n]
           @ [Step (t + ?I + n * ?I) (max (off + ?len) ?L) None []]
      = trace @ map (\<lambda>k. step_at cfg sock buffer (t + k * ?I) (off + k * ?C)) [0..<Suc n]
           @ [Step (t + Suc n * ?I) (max off ?L) None []]"
    unfolding maps mx unroll by (simp add: add.assoc)
  have "Simulator_Run cfg sock buffer stop [(t, off)] trace =
        Simulator_Run cfg sock buffer stop [(t + ?I, off + ?len)] (trace @ [step_at cfg sock buffer t off])"
    using lt ns sched by (simp add: Simulator_Run.simps [of _ _ _ _ "[(t, off)]"] Send_lt)
  also note IH
  finally show ?case by (simp only: tail)
qed

subsection \<open>The trace of a run\<close>

lemma take_min_drop:
  "take (min C (length buffer - off)) (drop off buffer) = take C (drop off buffer)"
  by (simp add: min_def)

lemma sent_step_at:
  "sent (step_at cfg sock buffer now off) =
     Some (Transmit now off (take (chunk cfg) (drop off buffer))
             (sock now (take (chunk cfg) (drop off buffer))))"
  by (simp add: step_at_def Let_def take_min_drop)

lemma scheduled_step_at:
  "scheduled (step_at cfg sock buffer now off) =
     [(now + interval cfg, off + min (chunk cfg) (length buffer - off))]"
  by (simp add: step_at_def Let_def)

lemma st_step_at:
  "st_time (step_at cfg sock buffer now off) = now"
  "st_offset (step_at cfg sock buffer now off) = off"
  by (simp_all add: step_at_def Let_def)

lemma transmissions_append:
  "transmissions (xs @ ys) = transmissions xs @ transmissions ys"
  by (simp add: transmissions_def map_filter_def)

lemma transmissions_steps:
  "transmissions (map (\<lambda>k. step_at cfg sock buffer (f k) (g k)) ks) =
     map (\<lambda>k. Transmit (f k) (g k) (take (chunk cfg) (drop (g k) buffer))
                 (sock (f k) (take (chunk cfg) (drop (g k) buffer)))) ks"
  by (induction ks) (simp_all add: transmissions_def map_filter_simps sent_step_at)

lemma transmissions_idle:
  "transmissions [Step t off None sch] = []"
  by (simp add: transmissions_def map_filter_simps)

text \<open>The run of the whole sequence, from the first event at offset 0.\<close>

lemma run_from_start:
  assumes "0 < chunk cfg" and "\<not> stopped stop (t0 + chunk_count (length buffer) (chunk cfg) * interval cfg)"
  shows "Simulator_Run cfg sock buffer stop [(t0, 0)] [] =
     Some (Inr (map (\<lambda>k. step_at cfg sock buffer (t0 + k * interval cfg) (k * chunk cfg))
                  [0..<chunk_count (length buffer) (chunk cfg)]
                @ [Step (t0 + chunk_count (length buffer) (chunk cfg) * interval cfg)
                     (length buffer) None []]))"
  using Simulator_Run_closed [OF assms(1), of buffer 0 "chunk_count (length buffer) (chunk cfg)" stop t0 sock "[]"] assms(2)
  by simp

lemma not_stopped_None: "\<not> stopped None t"
  by (simp add: stopped_def)

lemma concat_chunks_take:
  "concat (map (\<lambda>k. take C (drop (k * C) buffer)) [0..<m]) = take (m * C) buffer"
proof (induction m)
  case 0
  show ?case by simp
next
  case (Suc m)
  have "take (m * C) buffer @ take C (drop (m * C) buffer) = take (m * C + C) buffer"
    by (simp only: take_add)
  with Suc show ?case by (simp add: add.commute)
qed

lemma concat_chunks:
  assumes "0 < C"
  shows "concat (map (\<lambda>k. take C (drop (k * C) buffer)) [0..<chunk_count (length buffer) C]) = buffer"
  using chunk_count_covers [OF assms, of "length buffer"] by (simp add: concat_chunks_take)

lemma chunk_full:
  assumes "0 < C" and "Suc k < chunk_count L C"
  shows "min C (L - k * C) = C"
proof -
  have "Suc k * C < L" using assms lt_chunk_count_iff by blast
  then show ?thesis by simp
qed

lemma chunk_nonempty:
  assumes "0 < C" and "k < chunk_count L C"
  shows "0 < min C (L - k * C)"
  using assms lt_chunk_count_iff [of C k L] by simp

lemma chunk_in_bounds:
  assumes "0 < C" and "k < chunk_count L C"
  shows "k * C < L" and "k * C + min C (L - k * C) \<le> L"
  using assms lt_chunk_count_iff [of C k L] by simp_all

lemma last_chunk_dvd:
  assumes "0 < C" and "0 < L" and "C dvd L"
  shows "min C (L - (chunk_count L C - 1) * C) = C"
proof -
  from assms(3) obtain q where q: "L = C * q" ..
  with assms have "0 < q" by (cases q) auto
  have "chunk_count L C = q"
  proof (rule antisym)
    have "\<not> q * C < L" by (simp add: q mult.commute)
    then show "chunk_count L C \<le> q" using lt_chunk_count_iff [OF assms(1), of q L] by simp
    have "(q - 1) * C < L" using \<open>0 < q\<close> assms(1) by (simp add: q mult.commute)
    then have "q - 1 < chunk_count L C" using lt_chunk_count_iff [OF assms(1), of "q - 1" L] by simp
    then show "q \<le> chunk_count L C" by simp
  qed
  moreover have "C * q - (q - 1) * C = C" using \<open>0 < q\<close> by (cases q) simp_all
  ultimately show ?thesis by (simp add: q)
qed

lemma sender_transmissions:
  assumes "0 < chunk cfg"
  shows "\<exists>trace. Simulator_Run cfg sock buffer None [(t0, 0)] [] = Some (Inr trace) \<and>
           transmissions trace =
             map (\<lambda>k. Transmit (t0 + k * interval cfg) (k * chunk cfg)
                         (take (chunk cfg) (drop (k * chunk cfg) buffer))
                         (sock (t0 + k * interval cfg) (take (chunk cfg) (drop (k * chunk cfg) buffer))))
               [0..<chunk_count (length buffer) (chunk cfg)]"
  using run_from_start [OF assms not_stopped_None, where buffer = buffer and ?t0.0 = t0 and sock = sock]
  by (simp add: transmissions_append transmissions_steps transmissions_idle)

lemma Send_no_wrap:
  assumes "Send cfg sock buffer now offset = Inr s" and "(t, off') \<in> set (scheduled s)"
  shows "offset < length buffer \<and> off' \<le> length buffer \<and> offset \<le> off'"
  using assms by (auto simp: Send_def Create_Packet_def Let_def split: if_splits)

lemma sender_trace:
  assumes "0 < chunk cfg"
  shows "\<exists>trace. Simulator_Run cfg sock buffer None [(t0, 0)] [] = Some (Inr trace) \<and>
           trace = map (\<lambda>k. step_at cfg sock buffer (t0 + k * interval cfg) (k * chunk cfg))
                     [0..<chunk_count (length buffer) (chunk cfg)]
                   @ [Step (t0 + chunk_count (length buffer) (chunk cfg) * interval cfg)
                        (length buffer) None []]"
  using run_from_start [OF assms not_stopped_None, where buffer = buffer and ?t0.0 = t0 and sock = sock]
  by simp

lemma last_chunk_reaches_end:
  assumes "0 < C" and "chunk_count L C = Suc k"
  shows "k * C + min C (L - k * C) = L"
proof -
  have "k < chunk_count L C" and "\<not> Suc k < chunk_count L C" using assms(2) by simp_all
  then have "k * C < L" and "\<not> Suc k * C < L" using lt_chunk_count_iff [OF assms(1)] by blast+
  then show ?thesis by (auto simp: min_def)
qed

lemma chunk_count_pos:
  "0 < C \<Longrightarrow> 0 < chunk_count L C \<longleftrightarrow> 0 < L"
  using chunk_count_0_iff [of C L] by auto

lemma chunk_count_le:
  assumes "0 < C"
  shows "chunk_count L C \<le> L"
proof (rule ccontr)
  assume "\<not> chunk_count L C \<le> L"
  then have "L < chunk_count L C" by simp
  then have "L * C < L" using lt_chunk_count_iff [OF assms] by blast
  moreover have "L * 1 \<le> L * C" using assms by (simp only: mult_le_mono2 Suc_leI One_nat_def)
  ultimately show False by simp
qed

lemma offsets_increasing:
  assumes "0 < C"
  shows "sorted_wrt (<) (map (\<lambda>k. k * C) [0..<chunk_count L C] @ [L])"
proof -
  have "sorted_wrt (<) (map (\<lambda>k. k * C) [0..<chunk_count L C])"
    using assms by (simp add: sorted_wrt_map sorted_wrt_mono_rel [OF _ sorted_wrt_upt])
  moreover have "\<forall>x \<in> set (map (\<lambda>k. k * C) [0..<chunk_count L C]). x < L"
    using lt_chunk_count_iff [OF assms] by auto
  ultimately show ?thesis by (simp add: sorted_wrt_append)
qed

subsection \<open>Stop time, divergence and concrete runs\<close>

lemma stop_late:
  assumes "0 < chunk cfg"
    and "t0 + chunk_count (length buffer) (chunk cfg) * interval cfg < s"
  shows "Simulator_Run cfg sock buffer (Some s) [(t0, 0)] [] =
         Simulator_Run cfg sock buffer None [(t0, 0)] []"
proof -
  have "\<not> stopped (Some s) (t0 + chunk_count (length buffer) (chunk cfg) * interval cfg)"
    using assms(2) by (simp add: stopped_def)
  from run_from_start [OF assms(1) this] run_from_start [OF assms(1) not_stopped_None]
  show ?thesis by simp
qed


lemma zero_chunk_no_result:
  assumes "Simulator_Run cfg sock buffer stop queue trace = Some y"
  shows "\<not> (chunk cfg = 0 \<and> stop = None \<and> (\<exists>t off. queue = [(t, off)] \<and> off < length buffer))"
proof (rule Simulator_Run.raw_induct
    [where P = "\<lambda>cfg sock buffer stop queue trace y.
       \<not> (chunk cfg = 0 \<and> stop = None \<and> (\<exists>t off. queue = [(t, off)] \<and> off < length buffer))",
     OF _ assms])
  fix S :: "config \<Rightarrow> socket \<Rightarrow> byte list \<Rightarrow> nat option \<Rightarrow> (nat \<times> nat) list \<Rightarrow> step list
     \<Rightarrow> (error + step list) option"
  fix cfg sock buffer stop queue trace y
  assume IH: "\<And>cfg sock buffer stop queue trace y. S cfg sock buffer stop queue trace = Some y \<Longrightarrow>
     \<not> (chunk cfg = 0 \<and> stop = None \<and> (\<exists>t off. queue = [(t, off)] \<and> off < length buffer))"
  assume body: "(case queue of
        [] \<Rightarrow> Some (Inr trace)
      | ev # rest \<Rightarrow>
          if stopped stop (fst ev) then Some (Inr trace)
          else (case Send cfg sock buffer (fst ev) (snd ev) of
                  Inl e \<Rightarrow> Some (Inl e)
                | Inr r \<Rightarrow>
                    S cfg sock buffer stop
                      (fold Schedule (scheduled r) rest) (trace @ [r]))) = Some y"
  show "\<not> (chunk cfg = 0 \<and> stop = None \<and> (\<exists>t off. queue = [(t, off)] \<and> off < length buffer))"
  proof
    assume a: "chunk cfg = 0 \<and> stop = None \<and> (\<exists>t off. queue = [(t, off)] \<and> off < length buffer)"
    then obtain t off where q: "queue = [(t, off)]" and lt: "off < length buffer" by blast
    from a have c: "chunk cfg = 0" and st: "stop = None" by simp_all
    from body have "S cfg sock buffer None [(t + interval cfg, off)]
        (trace @ [step_at cfg sock buffer t off]) = Some y"
      using lt by (simp add: q st c not_stopped_None Send_lt scheduled_step_at)
    from IH [OF this] show False using c lt by simp
  qed
qed

lemma zero_chunk_never_ends:
  assumes "chunk cfg = 0" and "off < length buffer"
  shows "Simulator_Run cfg sock buffer None [(t, off)] trace = None"
proof (cases "Simulator_Run cfg sock buffer None [(t, off)] trace")
  case None
  then show ?thesis .
next
  case (Some y)
  from zero_chunk_no_result [OF Some] show ?thesis using assms by simp
qed

lemma emma_run_2500:
  "Simulator_Run emma_config ideal_socket (replicate 2500 7) None [(1000, 0)] [] =
   Some (Inr [Step 1000 0 (Some (Transmit 1000 0 (replicate 1024 7) 1024)) [(1010, 1024)],
              Step 1010 1024 (Some (Transmit 1010 1024 (replicate 1024 7) 1024)) [(1020, 2048)],
              Step 1020 2048 (Some (Transmit 1020 2048 (replicate 452 7) 452)) [(1030, 2500)],
              Step 1030 2500 None []])"
  by (simp add: Simulator_Run.simps Send_def Create_Packet_def emma_config_def stopped_def
      ideal_socket_def)


lemma emma_run_1025:
  "Simulator_Run emma_config ideal_socket (replicate 1025 7) None [(1000, 0)] [] =
   Some (Inr [Step 1000 0 (Some (Transmit 1000 0 (replicate 1024 7) 1024)) [(1010, 1024)],
              Step 1010 1024 (Some (Transmit 1010 1024 [7] 1)) [(1020, 1025)],
              Step 1020 1025 None []])"
  by (simp add: Simulator_Run.simps Send_def Create_Packet_def emma_config_def stopped_def
      ideal_socket_def)

lemma transmissions_2500:
  "transmissions
     [Step 1000 0 (Some (Transmit 1000 0 (replicate 1024 7) 1024)) [(1010, 1024)],
      Step 1010 1024 (Some (Transmit 1010 1024 (replicate 1024 7) 1024)) [(1020, 2048)],
      Step 1020 2048 (Some (Transmit 1020 2048 (replicate 452 7) 452)) [(1030, 2500)],
      Step 1030 2500 None []] =
   [Transmit 1000 0 (replicate 1024 7) 1024, Transmit 1010 1024 (replicate 1024 7) 1024,
    Transmit 1020 2048 (replicate 452 7) 452]"
  by (simp add: transmissions_def map_filter_simps)

text \<open>
  With the stop time of \<^verbatim>\<open>main\<close>, 5 s, the run of \<^verbatim>\<open>main\<close> is the run with no stop time
  as long as the payload has at most 399 chunks: the last event is then before 5 s.
\<close>

lemma main_whole_sequence:
  assumes "fs capFile = Some (Contents buffer)" and "length buffer \<le> 399 * 1024"
  shows "main sock fs (Some capFile) =
     (case Simulator_Run emma_config sock buffer None [(1000, 0)] [] of
        None \<Rightarrow> None
      | Some (Inl e) \<Rightarrow> Some (Inl e)
      | Some (Inr trace) \<Rightarrow> Some (Inr (0, trace)))"
proof -
  have C: "0 < chunk emma_config" by (simp add: emma_config_def)
  have "\<not> 399 * 1024 < length buffer" using assms(2) by simp
  then have "\<not> 399 < chunk_count (length buffer) 1024"
    using lt_chunk_count_iff [of 1024 399 "length buffer"] by simp
  then have "1000 + chunk_count (length buffer) (chunk emma_config) * interval emma_config < 5000"
    by (simp add: emma_config_def)
  from stop_late [OF C this, of sock]
  have "Simulator_Run emma_config sock buffer (Some 5000) [(1000, 0)] [] =
      Simulator_Run emma_config sock buffer None [(1000, 0)] []" .
  moreover have "StartApplication emma_config fs capFile 0 = Inr (buffer, [(1000, 0)])"
    using assms(1) by (simp add: StartApplication_def read_file_def emma_config_def)
  ultimately show ?thesis by (simp add: main_def)
qed

section \<open>The claims\<close>

text \<open>
  Claim C1. For every payload and every chunk size \<open>C > 0\<close>, the chunks that the transmit
  steps send partition the payload: the run of the sender's events ends, the first chunk
  sent starts at offset 0, each later chunk starts where the one before it ended, each
  chunk holds the \<open>min C (L - offset)\<close> bytes of the buffer at its offset, the lengths add
  up to the length \<open>L\<close> of the payload, no chunk is empty (and no chunk is sent when the
  payload is empty), and the bytes of the chunks, in the order they were sent, are the
  payload.
\<close>

theorem chunks_partition_payload:
  assumes "0 < chunk cfg"
  shows "\<exists>trace. Simulator_Run cfg sock buffer None [(t0, 0)] [] = Some (Inr trace) \<and>
     (transmissions trace \<noteq> [] \<longrightarrow> tx_offset (hd (transmissions trace)) = 0) \<and>
     (\<forall>i. Suc i < length (transmissions trace) \<longrightarrow>
          tx_offset (transmissions trace ! Suc i) =
            tx_offset (transmissions trace ! i) + length (tx_bytes (transmissions trace ! i))) \<and>
     (\<forall>tx \<in> set (transmissions trace).
          length (tx_bytes tx) = min (chunk cfg) (length buffer - tx_offset tx) \<and>
          tx_bytes tx = take (length (tx_bytes tx)) (drop (tx_offset tx) buffer)) \<and>
     sum_list (map (\<lambda>tx. length (tx_bytes tx)) (transmissions trace)) = length buffer \<and>
     (\<forall>tx \<in> set (transmissions trace). 0 < length (tx_bytes tx)) \<and>
     (length buffer = 0 \<longrightarrow> transmissions trace = []) \<and>
     concat (map tx_bytes (transmissions trace)) = buffer"
proof -
  let ?C = "chunk cfg" and ?L = "length buffer"
  let ?n = "chunk_count ?L ?C"
  let ?tx = "\<lambda>k. Transmit (t0 + k * interval cfg) (k * ?C) (take ?C (drop (k * ?C) buffer))
                 (sock (t0 + k * interval cfg) (take ?C (drop (k * ?C) buffer)))"
  from sender_transmissions [OF assms, where buffer = buffer and ?t0.0 = t0 and sock = sock]
  obtain trace where run: "Simulator_Run cfg sock buffer None [(t0, 0)] [] = Some (Inr trace)"
    and txs: "transmissions trace = map ?tx [0..<?n]"
    by blast
  have len: "length (transmissions trace) = ?n" by (simp add: txs)
  have nth: "transmissions trace ! k = ?tx k" if "k < ?n" for k
    using that by (simp add: txs)
  have first: "transmissions trace \<noteq> [] \<longrightarrow> tx_offset (hd (transmissions trace)) = 0"
  proof
    assume "transmissions trace \<noteq> []"
    then have "0 < ?n" using len by (cases "?n") auto
    then show "tx_offset (hd (transmissions trace)) = 0"
      using nth [of 0] \<open>transmissions trace \<noteq> []\<close> by (simp add: hd_conv_nth)
  qed
  have contiguous: "\<forall>i. Suc i < length (transmissions trace) \<longrightarrow>
          tx_offset (transmissions trace ! Suc i) =
            tx_offset (transmissions trace ! i) + length (tx_bytes (transmissions trace ! i))"
  proof (intro allI impI)
    fix i assume "Suc i < length (transmissions trace)"
    then have i: "Suc i < ?n" by (simp add: len)
    then have "min ?C (?L - i * ?C) = ?C" using chunk_full [OF assms] by blast
    then show "tx_offset (transmissions trace ! Suc i) =
            tx_offset (transmissions trace ! i) + length (tx_bytes (transmissions trace ! i))"
      using i by (simp add: nth)
  qed
  have lens: "\<forall>tx \<in> set (transmissions trace).
          length (tx_bytes tx) = min ?C (?L - tx_offset tx) \<and>
          tx_bytes tx = take (length (tx_bytes tx)) (drop (tx_offset tx) buffer)"
    using take_min_drop [of "chunk cfg" buffer] by (auto simp: txs min.commute)
  have positive: "\<forall>tx \<in> set (transmissions trace). 0 < length (tx_bytes tx)"
  proof
    fix tx assume "tx \<in> set (transmissions trace)"
    then obtain k where k: "k < ?n" and tx: "tx = ?tx k" by (auto simp: txs)
    from chunk_nonempty [OF assms k] show "0 < length (tx_bytes tx)" by (simp add: tx)
  qed
  have bytes: "concat (map tx_bytes (transmissions trace)) = buffer"
    using concat_chunks [OF assms, of buffer] by (simp add: txs comp_def)
  have "length (concat (map tx_bytes (transmissions trace))) = ?L" by (simp only: bytes)
  then have total: "sum_list (map (\<lambda>tx. length (tx_bytes tx)) (transmissions trace)) = ?L"
    by (simp add: length_concat comp_def)
  have none: "?L = 0 \<longrightarrow> transmissions trace = []"
    using assms by (simp add: txs chunk_count_0_iff)
  from run first contiguous lens total positive none bytes show ?thesis by blast
qed

text \<open>
  The sender of the source, with chunks of 1024 bytes, on a payload of 2500 bytes: three
  chunks, at offsets 0, 1024 and 2048, of 1024, 1024 and 452 bytes.
\<close>

theorem chunks_partition_payload_witness:
  "0 < chunk emma_config \<and>
   (\<exists>trace. Simulator_Run emma_config ideal_socket (replicate 2500 7) None [(1000, 0)] [] =
        Some (Inr trace) \<and>
      map tx_offset (transmissions trace) = [0, 1024, 2048] \<and>
      map (\<lambda>tx. length (tx_bytes tx)) (transmissions trace) = [1024, 1024, 452] \<and>
      sum_list (map (\<lambda>tx. length (tx_bytes tx)) (transmissions trace)) = 2500 \<and>
      concat (map tx_bytes (transmissions trace)) = replicate 2500 7)"
proof -
  have C: "0 < chunk emma_config" by (simp add: emma_config_def)
  from chunks_partition_payload [OF C, where sock = ideal_socket and buffer = "replicate 2500 7"
      and ?t0.0 = 1000]
  obtain trace where
    run: "Simulator_Run emma_config ideal_socket (replicate 2500 7) None [(1000, 0)] [] = Some (Inr trace)"
    and total: "sum_list (map (\<lambda>tx. length (tx_bytes tx)) (transmissions trace)) =
        length (replicate 2500 (7 :: byte))"
    and whole: "concat (map tx_bytes (transmissions trace)) = replicate 2500 7"
    by blast
  from run have txs: "transmissions trace =
      [Transmit 1000 0 (replicate 1024 7) 1024, Transmit 1010 1024 (replicate 1024 7) 1024,
       Transmit 1020 2048 (replicate 452 7) 452]"
    by (simp add: emma_run_2500 transmissions_2500 [symmetric])
  have offsets: "map tx_offset (transmissions trace) = [0, 1024, 2048]" by (simp add: txs)
  have lens: "map (\<lambda>tx. length (tx_bytes tx)) (transmissions trace) = [1024, 1024, 452]"
    by (simp add: txs)
  from total have total': "sum_list (map (\<lambda>tx. length (tx_bytes tx)) (transmissions trace)) = 2500"
    by simp
  from C run offsets lens total' whole show ?thesis
    by - (intro conjI exI [of _ trace]; assumption)
qed

text \<open>
  Claim C2 says that the step that sends the last chunk schedules nothing. In the source
  the call of \<^verbatim>\<open>Simulator::Schedule\<close> is inside the guard \<^verbatim>\<open>offset < buffer.size()\<close>
  and follows every send: on a payload of one byte the step at offset 0 sends the byte,
  \<open>offset + len < L\<close> is false, and the step schedules the event at offset 1 all the
  same; the run executes that event, which sends nothing.
\<close>

theorem final_send_schedules_successor_counterexample:
  "Send emma_config ideal_socket [7] 1000 0 =
     Inr (Step 1000 0 (Some (Transmit 1000 0 [7] 1)) [(1010, 1)]) \<and>
   \<not> 0 + min (chunk emma_config) (length [7 :: byte] - 0) < length [7 :: byte] \<and>
   Simulator_Run emma_config ideal_socket [7] None [(1000, 0)] [] =
     Some (Inr [Step 1000 0 (Some (Transmit 1000 0 [7] 1)) [(1010, 1)], Step 1010 1 None []])"
  by (simp add: Simulator_Run.simps Send_def Create_Packet_def emma_config_def stopped_def
      ideal_socket_def)

text \<open>
  Claim C2, amended. A transmit step at an offset below the length \<open>L\<close> of the payload
  sends the chunk of \<open>len = min chunk (L - offset)\<close> bytes at that offset and schedules
  exactly one successor, the step at \<open>offset + len\<close> at time \<open>now + interval\<close>, also
  when \<open>offset + len\<close> has reached \<open>L\<close>. A step at an offset of \<open>L\<close> or more is
  terminal: it sends nothing and schedules nothing. In the run of a payload, for a chunk
  size above 0, every executed event but the last sends a chunk and schedules exactly the
  event executed next, one interval later; the last event, at offset \<open>L\<close>, was scheduled
  by the step that sent the last chunk, so that the run has one event more than it has
  transmit events.
\<close>

theorem Send_schedules_after_every_send:
  "(offset < length buffer \<longrightarrow>
      Send cfg sock buffer now offset =
        Inr (Step now offset
               (Some (Transmit now offset
                        (take (min (chunk cfg) (length buffer - offset)) (drop offset buffer))
                        (sock now (take (min (chunk cfg) (length buffer - offset)) (drop offset buffer)))))
               [(now + interval cfg, offset + min (chunk cfg) (length buffer - offset))])) \<and>
   (length buffer \<le> offset \<longrightarrow>
      Send cfg sock buffer now offset = Inr (Step now offset None [])) \<and>
   (0 < chunk cfg \<longrightarrow>
      (\<exists>trace. Simulator_Run cfg sock buffer None [(t0, 0)] [] = Some (Inr trace) \<and>
         length trace = Suc (length (transmissions trace)) \<and>
         (\<forall>i. Suc i < length trace \<longrightarrow>
            sent (trace ! i) \<noteq> None \<and>
            scheduled (trace ! i) = [(st_time (trace ! Suc i), st_offset (trace ! Suc i))] \<and>
            st_time (trace ! Suc i) = st_time (trace ! i) + interval cfg) \<and>
         last trace = Step (t0 + length (transmissions trace) * interval cfg) (length buffer) None []))"
proof (intro conjI impI)
  show "Send cfg sock buffer now offset =
        Inr (Step now offset
               (Some (Transmit now offset
                        (take (min (chunk cfg) (length buffer - offset)) (drop offset buffer))
                        (sock now (take (min (chunk cfg) (length buffer - offset)) (drop offset buffer)))))
               [(now + interval cfg, offset + min (chunk cfg) (length buffer - offset))])"
    if "offset < length buffer"
    using that by (simp add: Send_def Create_Packet_def Let_def)
  show "Send cfg sock buffer now offset = Inr (Step now offset None [])"
    if "length buffer \<le> offset"
    using that by (simp add: Send_def)
next
  assume C: "0 < chunk cfg"
  let ?C = "chunk cfg" and ?L = "length buffer" and ?I = "interval cfg"
  let ?n = "chunk_count ?L ?C"
  let ?f = "\<lambda>k. step_at cfg sock buffer (t0 + k * ?I) (k * ?C)"
  let ?z = "Step (t0 + ?n * ?I) ?L None []"
  from sender_trace [OF C, where buffer = buffer and ?t0.0 = t0 and sock = sock]
  obtain trace where run: "Simulator_Run cfg sock buffer None [(t0, 0)] [] = Some (Inr trace)"
    and trace: "trace = map ?f [0..<?n] @ [?z]"
    by blast
  have txs: "length (transmissions trace) = ?n"
    by (simp add: trace transmissions_append transmissions_steps transmissions_idle)
  have len: "length trace = Suc (length (transmissions trace))"
    by (simp add: txs) (simp add: trace)
  have nth: "trace ! i = ?f i" if "i < ?n" for i
    using that by (simp add: trace nth_append)
  have nth_last: "trace ! ?n = ?z" by (simp add: trace nth_append)
  have link: "sent (trace ! i) \<noteq> None \<and>
            scheduled (trace ! i) = [(st_time (trace ! Suc i), st_offset (trace ! Suc i))] \<and>
            st_time (trace ! Suc i) = st_time (trace ! i) + ?I"
    if "Suc i < length trace" for i
  proof -
    from that have i: "i < ?n" by (simp add: trace)
    show ?thesis
    proof (cases "Suc i < ?n")
      case True
      then show ?thesis
        using chunk_full [OF C True] i
        by (simp add: nth sent_step_at scheduled_step_at st_step_at)
    next
      case False
      with i have eq: "?n = Suc i" by simp
      have "trace ! Suc i = ?z" using nth_last by (simp only: eq)
      then show ?thesis
        using last_chunk_reaches_end [OF C eq] i
        by (simp add: nth sent_step_at scheduled_step_at st_step_at eq)
    qed
  qed
  have final: "last trace = Step (t0 + length (transmissions trace) * ?I) ?L None []"
    by (simp add: txs) (simp add: trace)
  from run len link final
  show "\<exists>trace. Simulator_Run cfg sock buffer None [(t0, 0)] [] = Some (Inr trace) \<and>
         length trace = Suc (length (transmissions trace)) \<and>
         (\<forall>i. Suc i < length trace \<longrightarrow>
            sent (trace ! i) \<noteq> None \<and>
            scheduled (trace ! i) = [(st_time (trace ! Suc i), st_offset (trace ! Suc i))] \<and>
            st_time (trace ! Suc i) = st_time (trace ! i) + interval cfg) \<and>
         last trace = Step (t0 + length (transmissions trace) * interval cfg) (length buffer) None []"
    by blast
qed

text \<open>
  On a payload of 1025 bytes: the steps at offsets 0 and 1024 send and schedule their
  successor, the step at offset 1025 does neither; the run has three events and two
  transmit events.
\<close>

theorem Send_schedules_after_every_send_witness:
  "Send emma_config ideal_socket (replicate 1025 7) 1000 0 =
     Inr (Step 1000 0 (Some (Transmit 1000 0 (replicate 1024 7) 1024)) [(1010, 1024)]) \<and>
   Send emma_config ideal_socket (replicate 1025 7) 1010 1024 =
     Inr (Step 1010 1024 (Some (Transmit 1010 1024 [7] 1)) [(1020, 1025)]) \<and>
   Send emma_config ideal_socket (replicate 1025 7) 1020 1025 =
     Inr (Step 1020 1025 None []) \<and>
   0 < chunk emma_config \<and>
   (\<exists>trace. Simulator_Run emma_config ideal_socket (replicate 1025 7) None [(1000, 0)] [] =
        Some (Inr trace) \<and>
      length trace = 3 \<and> length (transmissions trace) = 2 \<and>
      last trace = Step 1020 1025 None [])"
proof -
  have C: "0 < chunk emma_config" by (simp add: emma_config_def)
  have sends: "Send emma_config ideal_socket (replicate 1025 7) 1000 0 =
     Inr (Step 1000 0 (Some (Transmit 1000 0 (replicate 1024 7) 1024)) [(1010, 1024)]) \<and>
   Send emma_config ideal_socket (replicate 1025 7) 1010 1024 =
     Inr (Step 1010 1024 (Some (Transmit 1010 1024 [7] 1)) [(1020, 1025)]) \<and>
   Send emma_config ideal_socket (replicate 1025 7) 1020 1025 =
     Inr (Step 1020 1025 None [])"
    using Send_schedules_after_every_send [of 0 "replicate 1025 7" emma_config ideal_socket 1000 1000]
      Send_schedules_after_every_send [of 1024 "replicate 1025 7" emma_config ideal_socket 1010 1000]
      Send_schedules_after_every_send [of 1025 "replicate 1025 7" emma_config ideal_socket 1020 1000]
    by (simp add: emma_config_def ideal_socket_def)
  from Send_schedules_after_every_send [of 0 "replicate 1025 7" emma_config ideal_socket 1000 1000] C
  obtain trace where
    run: "Simulator_Run emma_config ideal_socket (replicate 1025 7) None [(1000, 0)] [] = Some (Inr trace)"
    and len: "length trace = Suc (length (transmissions trace))"
    and final: "last trace = Step (1000 + length (transmissions trace) * interval emma_config)
        (length (replicate 1025 (7 :: byte))) None []"
    by blast
  from run have "length trace = 3" by (auto simp: emma_run_1025)
  with len have n: "length trace = 3" "length (transmissions trace) = 2" by simp_all
  from final have final': "last trace = Step 1020 1025 None []"
    by (simp add: n emma_config_def)
  have "\<exists>trace. Simulator_Run emma_config ideal_socket (replicate 1025 7) None [(1000, 0)] [] =
        Some (Inr trace) \<and>
      length trace = 3 \<and> length (transmissions trace) = 2 \<and>
      last trace = Step 1020 1025 None []"
    using run n final' by - (intro conjI exI [of _ trace]; assumption)
  with sends C show ?thesis by blast
qed

text \<open>
  Claim C3. For every payload of length \<open>L\<close> and every chunk size \<open>C > 0\<close>, the number of
  transmit events is the ceiling of \<open>L / C\<close> when \<open>L > 0\<close>, and 0 when \<open>L = 0\<close>; when
  \<open>C\<close> divides \<open>L > 0\<close>, the last chunk sent has \<open>C\<close> bytes.
\<close>

theorem transmit_event_count:
  assumes "0 < chunk cfg"
  shows "\<exists>trace. Simulator_Run cfg sock buffer None [(t0, 0)] [] = Some (Inr trace) \<and>
     length (transmissions trace) =
       (if 0 < length buffer then nat \<lceil>real (length buffer) / real (chunk cfg)\<rceil> else 0) \<and>
     (0 < length buffer \<and> chunk cfg dvd length buffer \<longrightarrow>
        length (tx_bytes (last (transmissions trace))) = chunk cfg)"
proof -
  let ?C = "chunk cfg" and ?L = "length buffer"
  let ?n = "chunk_count ?L ?C"
  let ?tx = "\<lambda>k. Transmit (t0 + k * interval cfg) (k * ?C) (take ?C (drop (k * ?C) buffer))
                 (sock (t0 + k * interval cfg) (take ?C (drop (k * ?C) buffer)))"
  from sender_transmissions [OF assms, where buffer = buffer and ?t0.0 = t0 and sock = sock]
  obtain trace where run: "Simulator_Run cfg sock buffer None [(t0, 0)] [] = Some (Inr trace)"
    and txs: "transmissions trace = map ?tx [0..<?n]"
    by blast
  have count: "length (transmissions trace) = (if 0 < ?L then nat \<lceil>real ?L / real ?C\<rceil> else 0)"
    using assms by (simp add: txs chunk_count_ceiling chunk_count_0_iff)
  have final: "length (tx_bytes (last (transmissions trace))) = ?C"
    if "0 < ?L" and "?C dvd ?L"
  proof -
    from that(1) have pos: "0 < ?n" using assms by (simp add: chunk_count_pos)
    then have "last (transmissions trace) = ?tx (?n - 1)"
      by (simp add: txs last_conv_nth)
    then show ?thesis
      using last_chunk_dvd [OF assms that] by (simp add: min.commute)
  qed
  from run count final show ?thesis by blast
qed

text \<open>A payload of 2048 bytes is sent in two chunks, the second of 1024 bytes.\<close>

theorem transmit_event_count_witness:
  "0 < chunk emma_config \<and>
   (\<exists>trace. Simulator_Run emma_config ideal_socket (replicate 2048 7) None [(1000, 0)] [] =
        Some (Inr trace) \<and>
      length (transmissions trace) = 2 \<and>
      length (tx_bytes (last (transmissions trace))) = 1024)"
proof -
  have C: "0 < chunk emma_config" by (simp add: emma_config_def)
  from transmit_event_count [OF C, where sock = ideal_socket and buffer = "replicate 2048 7"
      and ?t0.0 = 1000]
  obtain trace where
    run: "Simulator_Run emma_config ideal_socket (replicate 2048 7) None [(1000, 0)] [] = Some (Inr trace)"
    and count: "length (transmissions trace) = 2"
    and final: "length (tx_bytes (last (transmissions trace))) = 1024"
    by (auto simp: emma_config_def)
  from C run count final show ?thesis
    by - (intro conjI exI [of _ trace]; assumption)
qed




text \<open>
  Claim C5. The application starts at time 0. For every payload with at least one chunk,
  the first transmit event is at time \<open>startDelay\<close> exactly, and each transmit event
  after the first is exactly \<open>interval\<close> later than the one before it.
\<close>

theorem transmit_cadence:
  assumes "0 < chunk cfg" and "StartApplication cfg fs filename 0 = Inr (buffer, queue)"
  shows "\<exists>trace. Simulator_Run cfg sock buffer None queue [] = Some (Inr trace) \<and>
     (buffer \<noteq> [] \<longrightarrow>
        transmissions trace \<noteq> [] \<and> tx_time (hd (transmissions trace)) = startDelay cfg) \<and>
     (\<forall>i. Suc i < length (transmissions trace) \<longrightarrow>
        tx_time (transmissions trace ! Suc i) = tx_time (transmissions trace ! i) + interval cfg)"
proof -
  let ?C = "chunk cfg" and ?L = "length buffer" and ?t = "startDelay cfg"
  let ?n = "chunk_count ?L ?C"
  let ?tx = "\<lambda>k. Transmit (?t + k * interval cfg) (k * ?C) (take ?C (drop (k * ?C) buffer))
                 (sock (?t + k * interval cfg) (take ?C (drop (k * ?C) buffer)))"
  from assms(2) have queue: "queue = [(?t, 0)]"
    by (auto simp: StartApplication_def split: sum.splits)
  from sender_transmissions [OF assms(1), where buffer = buffer and ?t0.0 = ?t and sock = sock]
  obtain trace where run: "Simulator_Run cfg sock buffer None queue [] = Some (Inr trace)"
    and txs: "transmissions trace = map ?tx [0..<?n]"
    unfolding queue by blast
  have first: "transmissions trace \<noteq> [] \<and> tx_time (hd (transmissions trace)) = ?t"
    if "buffer \<noteq> []"
  proof -
    from that have pos: "0 < ?n" using assms(1) by (simp add: chunk_count_pos)
    then have "transmissions trace \<noteq> []" by (simp add: txs)
    moreover from pos have "hd (transmissions trace) = ?tx 0"
      by (simp add: txs hd_conv_nth)
    ultimately show ?thesis by simp
  qed
  have gaps: "tx_time (transmissions trace ! Suc i) = tx_time (transmissions trace ! i) + interval cfg"
    if "Suc i < length (transmissions trace)" for i
    using that by (simp add: txs)
  from run first gaps show ?thesis by blast
qed

text \<open>
  With the constants of the source and a file of 2500 bytes, the transmit events are at
  1000 ms, 1010 ms and 1020 ms.
\<close>

theorem transmit_cadence_witness:
  "0 < chunk emma_config \<and>
   StartApplication emma_config (no_files(''alert123.xml'' \<mapsto> Contents (replicate 2500 7)))
     ''alert123.xml'' 0 = Inr (replicate 2500 7, [(1000, 0)]) \<and>
   (\<exists>trace. Simulator_Run emma_config ideal_socket (replicate 2500 7) None [(1000, 0)] [] =
        Some (Inr trace) \<and>
      tx_time (hd (transmissions trace)) = 1000 \<and>
      map tx_time (transmissions trace) = [1000, 1010, 1020])"
proof -
  have C: "0 < chunk emma_config" by (simp add: emma_config_def)
  have S: "StartApplication emma_config (no_files(''alert123.xml'' \<mapsto> Contents (replicate 2500 7)))
      ''alert123.xml'' 0 = Inr (replicate 2500 7, [(1000, 0)])"
    by (simp add: StartApplication_def read_file_def emma_config_def)
  from transmit_cadence [OF C S, where sock = ideal_socket]
  obtain trace where
    run: "Simulator_Run emma_config ideal_socket (replicate 2500 7) None [(1000, 0)] [] = Some (Inr trace)"
    and first: "tx_time (hd (transmissions trace)) = startDelay emma_config"
    by auto
  from first have first': "tx_time (hd (transmissions trace)) = 1000" by (simp add: emma_config_def)
  from run have txs: "transmissions trace =
      [Transmit 1000 0 (replicate 1024 7) 1024, Transmit 1010 1024 (replicate 1024 7) 1024,
       Transmit 1020 2048 (replicate 452 7) 452]"
    by (simp add: emma_run_2500 transmissions_2500 [symmetric])
  have times: "map tx_time (transmissions trace) = [1000, 1010, 1020]" by (simp add: txs)
  from C S run first' times show ?thesis
    by - (intro conjI exI [of _ trace]; assumption)
qed

text \<open>
  Claim C6. For the empty payload the first step, at offset 0, is terminal at once: it
  sends nothing and schedules nothing. The run, with any stop time or none, has no
  transmit event, and the log of every receiver, whatever the network does, has no
  reception event.
\<close>

theorem empty_payload_sends_nothing:
  "Send cfg sock [] now 0 = Inr (Step now 0 None []) \<and>
   (\<exists>trace. Simulator_Run cfg sock [] stop [(t0, 0)] [] = Some (Inr trace) \<and>
      transmissions trace = [] \<and>
      (\<forall>net rid. receptions net rid trace = [])) \<and>
   Simulator_Run cfg sock [] None [(t0, 0)] [] = Some (Inr [Step t0 0 None []])"
proof -
  have idle: "Send cfg sock [] now 0 = Inr (Step now 0 None [])" for now
    by (simp add: Send_def)
  have run: "Simulator_Run cfg sock [] stop [(t0, 0)] [] =
      Some (Inr (if stopped stop t0 then [] else [Step t0 0 None []]))" for stop
    by (simp add: Simulator_Run.simps [of _ _ _ _ "[(t0, 0)]"] Simulator_Run.simps [of _ _ _ _ "[]"] idle)
  have none: "transmissions (if stopped stop t0 then [] else [Step t0 0 None []]) = []"
    by (simp add: transmissions_def map_filter_simps)
  have "\<exists>trace. Simulator_Run cfg sock [] stop [(t0, 0)] [] = Some (Inr trace) \<and>
      transmissions trace = [] \<and> (\<forall>net rid. receptions net rid trace = [])"
    using run [of stop] none by (simp add: receptions_def map_filter_simps)
  moreover have "Simulator_Run cfg sock [] None [(t0, 0)] [] = Some (Inr [Step t0 0 None []])"
    using run [of None] by (simp add: not_stopped_None)
  ultimately show ?thesis using idle by blast
qed

text \<open>
  Claim C7 says that a missing payload file is fatal at startup and reported to the caller.
  In the source the state of the \<^verbatim>\<open>std::ifstream\<close> is never tested: with no file at all,
  \<^verbatim>\<open>main\<close> runs to its end and returns the exit code 0, having executed the one event
  at 1 s, which sends nothing.
\<close>

theorem missing_file_exit_code_counterexample:
  "no_files ''alert123.xml'' = None \<and>
   main ideal_socket no_files None = Some (Inr (0, [Step 1000 0 None []]))"
  by (simp add: main_def no_files_def StartApplication_def read_file_def emma_config_def
      Simulator_Run.simps Send_def stopped_def)

text \<open>
  Claim C7, amended. If the payload file is missing, so that it cannot be opened, the
  sender treats it as an empty payload: the buffer is empty, no transmission occurs, and
  \<^verbatim>\<open>main\<close> completes normally with the exit code 0, exactly as it does when the file
  exists and is empty; no error is reported. If the file can be opened and reading it
  fails, the condition is fatal at startup: \<^verbatim>\<open>StartApplication\<close> schedules nothing, so
  that no transmission occurs, and the program ends with the read error, an outcome that
  differs from every normal completion with exit code 0.
\<close>

theorem missing_file_is_empty_payload:
  assumes "capFile = (case arg of None \<Rightarrow> ''alert123.xml'' | Some f \<Rightarrow> f)"
  shows "(fs capFile = None \<longrightarrow>
       main sock fs arg = Some (Inr (0, [Step 1000 0 None []])) \<and>
       transmissions [Step 1000 0 None []] = [] \<and>
       main sock fs arg = main sock (fs(capFile \<mapsto> Contents [])) arg \<and>
       StartApplication cfg fs capFile now = Inr ([], [(now + startDelay cfg, 0)])) \<and>
     (fs capFile = Some ReadFails \<longrightarrow>
       main sock fs arg = Some (Inl ReadFailure) \<and>
       (\<forall>trace. main sock fs arg \<noteq> Some (Inr (0, trace))) \<and>
       StartApplication cfg fs capFile now = Inl ReadFailure)"
proof (intro conjI impI)
  assume missing: "fs capFile = None"
  have run: "Simulator_Run emma_config sock [] (Some 5000) [(1000, 0)] [] =
      Some (Inr [Step 1000 0 None []])"
    by (simp add: Simulator_Run.simps [of _ _ _ _ "[(1000, 0)]"] Simulator_Run.simps [of _ _ _ _ "[]"]
        Send_def stopped_def)
  have start: "StartApplication emma_config fs capFile 0 = Inr ([], [(1000, 0)])"
    using missing by (simp add: StartApplication_def read_file_def emma_config_def)
  have start': "StartApplication emma_config (fs(capFile \<mapsto> Contents [])) capFile 0 =
      Inr ([], [(1000, 0)])"
    by (simp add: StartApplication_def read_file_def emma_config_def)
  show m: "main sock fs arg = Some (Inr (0, [Step 1000 0 None []]))"
    using start run by (simp add: main_def assms [symmetric])
  have m': "main sock (fs(capFile \<mapsto> Contents [])) arg = Some (Inr (0, [Step 1000 0 None []]))"
    using start' run by (simp add: main_def assms [symmetric])
  show "transmissions [Step 1000 0 None []] = []" by (rule transmissions_idle)
  show "main sock fs arg = main sock (fs(capFile \<mapsto> Contents [])) arg"
    by (simp only: m m')
  show "StartApplication cfg fs capFile now = Inr ([], [(now + startDelay cfg, 0)])"
    using missing by (simp add: StartApplication_def read_file_def)
next
  assume fails: "fs capFile = Some ReadFails"
  have start: "StartApplication cfg fs capFile now = Inl ReadFailure" for cfg now
    using fails by (simp add: StartApplication_def read_file_def)
  show m: "main sock fs arg = Some (Inl ReadFailure)"
    using start [of emma_config 0] by (simp add: main_def assms [symmetric])
  show "\<forall>trace. main sock fs arg \<noteq> Some (Inr (0, trace))" by (simp add: m)
  show "StartApplication cfg fs capFile now = Inl ReadFailure" by (rule start)
qed

text \<open>
  The default file name, with no file present, and with a file that cannot be read.
\<close>

theorem missing_file_is_empty_payload_witness:
  "no_files ''alert123.xml'' = None \<and>
   main failing_socket no_files None = Some (Inr (0, [Step 1000 0 None []])) \<and>
   main failing_socket no_files None =
     main failing_socket (no_files(''alert123.xml'' \<mapsto> Contents [])) None \<and>
   StartApplication emma_config no_files ''alert123.xml'' 0 = Inr ([], [(1000, 0)]) \<and>
   (no_files(''alert123.xml'' \<mapsto> ReadFails)) ''alert123.xml'' = Some ReadFails \<and>
   main failing_socket (no_files(''alert123.xml'' \<mapsto> ReadFails)) None = Some (Inl ReadFailure) \<and>
   StartApplication emma_config (no_files(''alert123.xml'' \<mapsto> ReadFails)) ''alert123.xml'' 0 =
     Inl ReadFailure"
proof -
  have h: "no_files ''alert123.xml'' = None" by (simp add: no_files_def)
  have h': "(no_files(''alert123.xml'' \<mapsto> ReadFails)) ''alert123.xml'' = Some ReadFails" by simp
  have a: "''alert123.xml'' = (case None :: string option of None \<Rightarrow> ''alert123.xml'' | Some f \<Rightarrow> f)"
    by simp
  note missing = missing_file_is_empty_payload [where fs = no_files
      and capFile = "''alert123.xml''" and arg = None and sock = failing_socket
      and cfg = emma_config and now = 0, OF a]
  from missing h
  have one: "main failing_socket no_files None = Some (Inr (0, [Step 1000 0 None []]))"
    by blast
  from missing h
  have same: "main failing_socket no_files None =
       main failing_socket (no_files(''alert123.xml'' \<mapsto> Contents [])) None"
    by blast
  from missing h
  have "StartApplication emma_config no_files ''alert123.xml'' 0 =
      Inr ([], [(0 + startDelay emma_config, 0)])"
    by blast
  then have start: "StartApplication emma_config no_files ''alert123.xml'' 0 = Inr ([], [(1000, 0)])"
    by (simp add: emma_config_def)
  note failing = missing_file_is_empty_payload [where fs = "no_files(''alert123.xml'' \<mapsto> ReadFails)"
      and capFile = "''alert123.xml''" and arg = None and sock = failing_socket
      and cfg = emma_config and now = 0, OF a]
  from failing h'
  have two: "main failing_socket (no_files(''alert123.xml'' \<mapsto> ReadFails)) None =
       Some (Inl ReadFailure)"
    by blast
  from failing h'
  have start': "StartApplication emma_config (no_files(''alert123.xml'' \<mapsto> ReadFails))
       ''alert123.xml'' 0 = Inl ReadFailure"
    by blast
  from h one same start h' two start' show ?thesis by (intro conjI)
qed



text \<open>
  Claim C9. The read of a chunk never leaves the buffer: \<^verbatim>\<open>Send\<close> never yields the
  out-of-bounds error, at any offset; whenever it sends, \<open>offset < L\<close> and
  \<open>offset + len \<le> L\<close> hold and the packet is the slice of \<open>len\<close> bytes at \<open>offset\<close>;
  and, for a chunk size above 0, this holds of every transmission of the run.
\<close>

theorem chunk_read_in_bounds:
  "(\<exists>s. Send cfg sock buffer now offset = Inr s) \<and>
   (\<forall>s tx. Send cfg sock buffer now offset = Inr s \<longrightarrow> sent s = Some tx \<longrightarrow>
      offset < length buffer \<and>
      offset + length (tx_bytes tx) \<le> length buffer \<and>
      tx_offset tx = offset \<and>
      length (tx_bytes tx) = min (chunk cfg) (length buffer - offset) \<and>
      Create_Packet buffer offset (min (chunk cfg) (length buffer - offset)) = Inr (tx_bytes tx)) \<and>
   (0 < chunk cfg \<longrightarrow>
      (\<exists>trace. Simulator_Run cfg sock buffer None [(t0, 0)] [] = Some (Inr trace) \<and>
         (\<forall>tx \<in> set (transmissions trace).
            tx_offset tx < length buffer \<and>
            tx_offset tx + length (tx_bytes tx) \<le> length buffer \<and>
            Create_Packet buffer (tx_offset tx) (length (tx_bytes tx)) = Inr (tx_bytes tx))))"
proof (intro conjI allI impI)
  show "\<exists>s. Send cfg sock buffer now offset = Inr s"
    by (cases "offset < length buffer") (simp_all add: Send_lt Send_ge)
next
  fix s tx
  assume s: "Send cfg sock buffer now offset = Inr s" and tx: "sent s = Some tx"
  have lt: "offset < length buffer"
  proof (rule ccontr)
    assume "\<not> offset < length buffer"
    with s tx show False by (simp add: Send_ge) auto
  qed
  with s have "s = step_at cfg sock buffer now offset" by (simp add: Send_lt)
  with tx have tx_eq: "tx = Transmit now offset (take (chunk cfg) (drop offset buffer))
             (sock now (take (chunk cfg) (drop offset buffer)))"
    by (simp add: sent_step_at)
  show "offset < length buffer" by (rule lt)
  show "offset + length (tx_bytes tx) \<le> length buffer" using lt by (simp add: tx_eq)
  show "tx_offset tx = offset" by (simp add: tx_eq)
  show "length (tx_bytes tx) = min (chunk cfg) (length buffer - offset)"
    by (simp add: tx_eq min.commute)
  show "Create_Packet buffer offset (min (chunk cfg) (length buffer - offset)) = Inr (tx_bytes tx)"
    using lt by (simp add: tx_eq Create_Packet_def take_min_drop)
next
  assume C: "0 < chunk cfg"
  let ?C = "chunk cfg" and ?L = "length buffer"
  let ?n = "chunk_count ?L ?C"
  let ?tx = "\<lambda>k. Transmit (t0 + k * interval cfg) (k * ?C) (take ?C (drop (k * ?C) buffer))
                 (sock (t0 + k * interval cfg) (take ?C (drop (k * ?C) buffer)))"
  from sender_transmissions [OF C, where buffer = buffer and ?t0.0 = t0 and sock = sock]
  obtain trace where run: "Simulator_Run cfg sock buffer None [(t0, 0)] [] = Some (Inr trace)"
    and txs: "transmissions trace = map ?tx [0..<?n]"
    by blast
  have "tx_offset tx < ?L \<and> tx_offset tx + length (tx_bytes tx) \<le> ?L \<and>
            Create_Packet buffer (tx_offset tx) (length (tx_bytes tx)) = Inr (tx_bytes tx)"
    if "tx \<in> set (transmissions trace)" for tx
  proof -
    from that obtain k where k: "k < ?n" and tx: "tx = ?tx k" by (auto simp: txs)
    from chunk_in_bounds [OF C k] show ?thesis
      using take_min_drop [of ?C buffer "k * ?C"]
      by (simp add: tx Create_Packet_def min.commute)
  qed
  with run show "\<exists>trace. Simulator_Run cfg sock buffer None [(t0, 0)] [] = Some (Inr trace) \<and>
         (\<forall>tx \<in> set (transmissions trace).
            tx_offset tx < length buffer \<and>
            tx_offset tx + length (tx_bytes tx) \<le> length buffer \<and>
            Create_Packet buffer (tx_offset tx) (length (tx_bytes tx)) = Inr (tx_bytes tx))"
    by blast
qed

text \<open>The last chunk of the payload of 2500 bytes: 452 bytes at offset 2048.\<close>

theorem chunk_read_in_bounds_witness:
  "Send emma_config ideal_socket (replicate 2500 7) 1020 2048 =
     Inr (Step 1020 2048 (Some (Transmit 1020 2048 (replicate 452 7) 452)) [(1030, 2500)]) \<and>
   (2048 :: nat) < length (replicate 2500 (7 :: byte)) \<and>
   (2048 :: nat) + length (replicate 452 (7 :: byte)) \<le> length (replicate 2500 (7 :: byte)) \<and>
   Create_Packet (replicate 2500 7) 2048 (min (chunk emma_config) (length (replicate 2500 (7 :: byte)) - 2048)) =
     Inr (replicate 452 7)"
proof -
  have S: "Send emma_config ideal_socket (replicate 2500 7) 1020 2048 =
     Inr (Step 1020 2048 (Some (Transmit 1020 2048 (replicate 452 7) 452)) [(1030, 2500)])"
    by (simp add: Send_def Create_Packet_def emma_config_def ideal_socket_def)
  have T: "sent (Step 1020 2048 (Some (Transmit 1020 2048 (replicate 452 7) 452)) [(1030, 2500)]) =
      Some (Transmit 1020 2048 (replicate 452 7) 452)"
    by simp
  from chunk_read_in_bounds [of emma_config ideal_socket "replicate 2500 7" 1020 2048 0]
  have "\<forall>s tx. Send emma_config ideal_socket (replicate 2500 7) 1020 2048 = Inr s \<longrightarrow> sent s = Some tx \<longrightarrow>
      2048 < length (replicate 2500 (7 :: byte)) \<and>
      2048 + length (tx_bytes tx) \<le> length (replicate 2500 (7 :: byte)) \<and>
      tx_offset tx = 2048 \<and>
      length (tx_bytes tx) = min (chunk emma_config) (length (replicate 2500 (7 :: byte)) - 2048) \<and>
      Create_Packet (replicate 2500 7) 2048 (min (chunk emma_config) (length (replicate 2500 (7 :: byte)) - 2048)) =
        Inr (tx_bytes tx)"
    by blast
  from this [rule_format, OF S T] S show ?thesis by (simp add: emma_config_def)
qed

text \<open>
  Claim C10. For every payload and every chunk size above 0, the chain of transmit steps
  ends: the run returns, after one event more than the ceiling of \<open>L / C\<close>, at most
  \<open>L + 1\<close> events. Every step at an offset below \<open>L\<close> sends at least one byte, the
  offsets are strictly increasing, and the last event is at offset \<open>L\<close>, sends nothing
  and schedules nothing.
\<close>

theorem transmit_chain_terminates:
  assumes "0 < chunk cfg"
  shows "\<exists>trace. Simulator_Run cfg sock buffer None [(t0, 0)] [] = Some (Inr trace) \<and>
     length trace = Suc (nat \<lceil>real (length buffer) / real (chunk cfg)\<rceil>) \<and>
     length trace \<le> Suc (length buffer) \<and>
     (\<forall>s \<in> set trace. st_offset s < length buffer \<longrightarrow>
        (\<exists>tx. sent s = Some tx \<and> 1 \<le> length (tx_bytes tx))) \<and>
     sorted_wrt (<) (map st_offset trace) \<and>
     st_offset (last trace) = length buffer \<and>
     sent (last trace) = None \<and> scheduled (last trace) = []"
proof -
  let ?C = "chunk cfg" and ?L = "length buffer" and ?I = "interval cfg"
  let ?n = "chunk_count ?L ?C"
  let ?f = "\<lambda>k. step_at cfg sock buffer (t0 + k * ?I) (k * ?C)"
  let ?z = "Step (t0 + ?n * ?I) ?L None []"
  from sender_trace [OF assms, where buffer = buffer and ?t0.0 = t0 and sock = sock]
  obtain trace where run: "Simulator_Run cfg sock buffer None [(t0, 0)] [] = Some (Inr trace)"
    and trace: "trace = map ?f [0..<?n] @ [?z]"
    by blast
  have len: "length trace = Suc (nat \<lceil>real ?L / real ?C\<rceil>)"
    using assms by (simp add: trace chunk_count_ceiling)
  have bound: "length trace \<le> Suc ?L"
    using chunk_count_le [OF assms, of ?L] by (simp add: trace)
  have progress: "\<exists>tx. sent s = Some tx \<and> 1 \<le> length (tx_bytes tx)"
    if "s \<in> set trace" and "st_offset s < ?L" for s
  proof -
    from that consider k where "k < ?n" "s = ?f k" | "s = ?z" by (auto simp: trace)
    then show ?thesis
    proof cases
      case 1
      from chunk_nonempty [OF assms 1(1)] show ?thesis
        using assms by (auto simp: 1(2) sent_step_at min.commute)
    next
      case 2
      with that(2) show ?thesis by simp
    qed
  qed
  have "map st_offset trace = map (\<lambda>k. k * ?C) [0..<?n] @ [?L]"
    by (simp add: trace st_step_at comp_def)
  then have increasing: "sorted_wrt (<) (map st_offset trace)"
    using offsets_increasing [OF assms, of ?L] by simp
  have final: "last trace = ?z" by (simp add: trace)
  from run len bound progress increasing final show ?thesis by auto
qed

text \<open>The payload of 2500 bytes takes four events, the last at offset 2500.\<close>

theorem transmit_chain_terminates_witness:
  "0 < chunk emma_config \<and>
   (\<exists>trace. Simulator_Run emma_config ideal_socket (replicate 2500 7) None [(1000, 0)] [] =
        Some (Inr trace) \<and>
      length trace = 4 \<and>
      st_offset (last trace) = 2500 \<and>
      sent (last trace) = None \<and> scheduled (last trace) = [])"
proof -
  have C: "0 < chunk emma_config" by (simp add: emma_config_def)
  from transmit_chain_terminates [OF C, where sock = ideal_socket and buffer = "replicate 2500 7"
      and ?t0.0 = 1000]
  obtain trace where
    run: "Simulator_Run emma_config ideal_socket (replicate 2500 7) None [(1000, 0)] [] = Some (Inr trace)"
    and len: "length trace = Suc (nat \<lceil>real (length (replicate 2500 (7 :: byte))) / real (chunk emma_config)\<rceil>)"
    and last: "st_offset (last trace) = length (replicate 2500 (7 :: byte))"
      "sent (last trace) = None" "scheduled (last trace) = []"
    by blast
  from len have len': "length trace = 4" by (simp add: emma_config_def)
  from last(1) have last': "st_offset (last trace) = 2500" by simp
  from C run len' last' last(2,3) show ?thesis
    by - (intro conjI exI [of _ trace]; assumption)
qed

end
